theory Spec2Isabelle
  imports Main "HOL-Library.Sublist"
begin

section \<open>Sensor levels and the effects of the program\<close>

text \<open>
  Modelled from the spec: the sensor level type \<open>Level{LOW,HIGH}\<close> belongs to the GPIO
  package, which is not part of \<^verbatim>\<open>main.go\<close>. In that package a level is a Go boolean
  with \<open>Low = false\<close> and \<open>High = true\<close>, so the value of a declared but unassigned
  variable \<^verbatim>\<open>var lastState gpio.Level\<close> is \<open>Low\<close>. Every statement below that depends
  on this value goes through \<open>Level_zero\<close>.
\<close>

datatype Level = Low | High

definition Level_zero :: Level where
  "Level_zero = Low"

text \<open>
  What the program does to the outside world, in the order it does it: a call of the
  standard logger (with the line of \<^verbatim>\<open>main.go\<close> that makes the call and the text it hands
  over), a \<^verbatim>\<open>PostMessage\<close> to Slack (token, channel, text) and a rewrite of the log file.
\<close>

datatype action = Log nat string | PostMessage string string string | WriteFile string

fun is_PostMessage :: "action \<Rightarrow> bool" where
  "is_PostMessage (PostMessage token channel text) = True"
| "is_PostMessage (Log line text) = False"
| "is_PostMessage (WriteFile bytes) = False"

definition fmt_bool :: "bool \<Rightarrow> string" where
  "fmt_bool b = (if b then ''true'' else ''false'')"

section \<open>The edge monitor: \<^verbatim>\<open>sendSlackMessage\<close> and \<^verbatim>\<open>monitorSwitch\<close>\<close>

text \<open>
  \<^verbatim>\<open>sendSlackMessage\<close> posts once; \<open>sendErr\<close> is what the transport answers (\<open>None\<close> for
  success). A failure is logged and nothing else happens.
\<close>

definition sendSlackMessage :: "string \<Rightarrow> string \<Rightarrow> string \<Rightarrow> string option \<Rightarrow> action list" where
  "sendSlackMessage slackToken slackChannel message sendErr =
     PostMessage slackToken slackChannel message #
       (case sendErr of
          None \<Rightarrow> []
        | Some err \<Rightarrow> [Log 147 (''Failed to send Slack message: '' @ err)])"

text \<open>
  The variables the loop of \<^verbatim>\<open>monitorSwitch\<close> works on: its local \<^verbatim>\<open>lastState\<close> and the
  package variable \<^verbatim>\<open>state\<close>.
\<close>

record monitor_vars =
  lastState :: Level
  state :: bool

text \<open>
  One pass through the body of the loop (lines 130 to 137); the sleep has no effect on
  the variables. \<open>currentState\<close> is what \<^verbatim>\<open>pin.Read()\<close> returns at this tick.
  \<^verbatim>\<open>log.Println\<close> hands the logger the message followed by a newline.
\<close>

definition monitor_iteration ::
  "string \<Rightarrow> string \<Rightarrow> Level \<Rightarrow> string option \<Rightarrow> monitor_vars \<Rightarrow> monitor_vars \<times> action list" where
  "monitor_iteration slackToken slackChannel currentState sendErr v =
     (if currentState \<noteq> lastState v then
        (let v' = v\<lparr>lastState := currentState, state := (currentState = Low)\<rparr>;
             message = ''Switch state changed to: '' @ fmt_bool (state v')
         in (v', Log 135 (message @ ''\<newline>'')
                 # sendSlackMessage slackToken slackChannel message sendErr))
      else (v, []))"

text \<open>
  The loop never returns, so it is run on the finite list of ticks observed so far; each
  tick is the level read and the transport's answer, should a message be sent. The
  result is the variables after the last tick and, tick by tick, what was emitted.
\<close>

fun monitor_loop ::
  "string \<Rightarrow> string \<Rightarrow> (Level \<times> string option) list \<Rightarrow> monitor_vars
     \<Rightarrow> monitor_vars \<times> action list list" where
  "monitor_loop slackToken slackChannel [] v = (v, [])"
| "monitor_loop slackToken slackChannel (tick # ticks) v =
     (let (v', emitted) = monitor_iteration slackToken slackChannel (fst tick) (snd tick) v;
          (v'', later) = monitor_loop slackToken slackChannel ticks v'
      in (v'', emitted # later))"

definition monitorSwitch ::
  "string \<Rightarrow> string \<Rightarrow> (Level \<times> string option) list \<Rightarrow> bool \<Rightarrow> monitor_vars \<times> action list list" where
  "monitorSwitch slackToken slackChannel ticks state0 =
     monitor_loop slackToken slackChannel ticks \<lparr>lastState = Level_zero, state = state0\<rparr>"

definition notifications_sent :: "action list list \<Rightarrow> nat" where
  "notifications_sent emitted = length (filter is_PostMessage (concat emitted))"

text \<open>
  The spec's count, in its own words: the number of level changes between consecutive
  polls of a sequence of observed levels.
\<close>

fun spec_level_changes :: "Level list \<Rightarrow> nat" where
  "spec_level_changes (a # b # ls) = (if a \<noteq> b then 1 else 0) + spec_level_changes (b # ls)"
| "spec_level_changes ls = 0"

section \<open>The HTTP handlers: \<^verbatim>\<open>handleOptIn\<close> and \<^verbatim>\<open>getStatus\<close>\<close>

text \<open>
  A request as the handler sees it: what \<^verbatim>\<open>r.ParseForm()\<close> returns and the form values
  it has collected. \<^verbatim>\<open>FormValue\<close> is the first value of a key, or the empty string.
\<close>

record request =
  ParseForm :: "string option"
  Form :: "(string \<times> string list) list"

definition FormValue :: "request \<Rightarrow> string \<Rightarrow> string" where
  "FormValue r key =
     (case map_of (Form r) key of
        None \<Rightarrow> []
      | Some vs \<Rightarrow> (case vs of [] \<Rightarrow> [] | v # others \<Rightarrow> v))"

text \<open>
  A response: the status, the content type and what was written. A JSON body is kept as
  the Go map handed to the encoder, with its keys in the encoder's (sorted) order.
\<close>

datatype payload =
  Text string
| JSON_strings "(string \<times> string) list"
| JSON_bools "(string \<times> bool) list"

record response =
  status :: nat
  contentType :: string
  body :: payload

definition http_Error :: "string \<Rightarrow> nat \<Rightarrow> response" where
  "http_Error msg code =
     \<lparr>status = code, contentType = ''text/plain; charset=utf-8'', body = Text (msg @ ''\<newline>'')\<rparr>"

definition slackVerificationToken :: string where
  "slackVerificationToken = ''your-slack-verification-token''"

text \<open>The package variable \<^verbatim>\<open>optInUsers\<close>, a Go map, as created at line 21.\<close>

type_synonym users = "string \<rightharpoonup> bool"

definition optInUsers_init :: users where
  "optInUsers_init = Map.empty"

text \<open>The registry's opt-in operation: the assignment of line 175, made under the lock.\<close>

definition optIn :: "string \<Rightarrow> users \<Rightarrow> users" where
  "optIn userID optInUsers = optInUsers(userID \<mapsto> True)"

definition handleOptIn :: "request \<Rightarrow> users \<Rightarrow> response \<times> users" where
  "handleOptIn r optInUsers =
     (case ParseForm r of
        Some err \<Rightarrow> (http_Error ''Invalid request format'' 400, optInUsers)
      | None \<Rightarrow>
          (let userID = FormValue r ''user_id'';
               slackToken = FormValue r ''token''
           in if userID = [] \<or> slackToken \<noteq> slackVerificationToken
              then (http_Error ''Invalid user or token'' 401, optInUsers)
              else
                (\<lparr>status = 200, contentType = ''application/json'',
                  body = JSON_strings
                    [(''response_type'', ''ephemeral''),
                     (''text'', ''You have opted in for notifications, <@'' @ userID @ ''>.'')]\<rparr>,
                 optIn userID optInUsers)))"

definition getStatus :: "bool \<Rightarrow> response" where
  "getStatus st =
     \<lparr>status = 200, contentType = ''application/json'', body = JSON_bools [(''state'', st)]\<rparr>"

section \<open>The logging sink\<close>

text \<open>
  \<^verbatim>\<open>setupLogging\<close> sends the standard logger to the log file with the flags
  \<^verbatim>\<open>LstdFlags | Lshortfile\<close>. With these flags the logger starts every entry with the local
  date and time as \<^verbatim>\<open>2006/01/02 15:04:05\<close>, a space, the file name and line of the call, a
  colon and a space; it ends the entry with a newline if the text has none. \<open>itoa\<close> is
  the logger's own zero-padded decimal conversion (a negative width pads nothing).
\<close>

function itoa :: "nat \<Rightarrow> int \<Rightarrow> string" where
  "itoa i wid =
     (if 10 \<le> i \<or> 1 < wid
      then itoa (i div 10) (wid - 1) @ [char_of (48 + i mod 10)]
      else [char_of (48 + i)])"
  by pat_completeness auto
termination
  by (relation "measure (\<lambda>(i, wid). i + nat wid)") auto

definition formatHeader ::
  "nat \<Rightarrow> nat \<Rightarrow> nat \<Rightarrow> nat \<Rightarrow> nat \<Rightarrow> nat \<Rightarrow> string \<Rightarrow> nat \<Rightarrow> string" where
  "formatHeader year month day hour minute sec file line =
     itoa year 4 @ ''/'' @ itoa month 2 @ ''/'' @ itoa day 2 @ '' ''
       @ itoa hour 2 @ '':'' @ itoa minute 2 @ '':'' @ itoa sec 2 @ '' ''
       @ file @ '':'' @ itoa line (- 1) @ '': ''"

definition log_Output ::
  "nat \<Rightarrow> nat \<Rightarrow> nat \<Rightarrow> nat \<Rightarrow> nat \<Rightarrow> nat \<Rightarrow> nat \<Rightarrow> string \<Rightarrow> string" where
  "log_Output year month day hour minute sec line s =
     formatHeader year month day hour minute sec ''main.go'' line @ s
       @ (if s = [] \<or> last s \<noteq> CHR ''\<newline>'' then [CHR ''\<newline>''] else [])"

section \<open>Time values and the RFC3339 layout\<close>

text \<open>
  An instant is a number of nanoseconds since 1970-01-01T00:00:00Z. \<open>Date\<close> is the
  instant of a UTC date and time of the proleptic Gregorian calendar.
\<close>

type_synonym Time = int

definition logRetentionDuration :: int where
  "logRetentionDuration = 24 * 3600 * 1000000000"

definition isLeap :: "nat \<Rightarrow> bool" where
  "isLeap year = (year mod 4 = 0 \<and> (year mod 100 \<noteq> 0 \<or> year mod 400 = 0))"

definition daysIn :: "nat \<Rightarrow> nat \<Rightarrow> nat" where
  "daysIn month year =
     (if month = 2 then (if isLeap year then 29 else 28)
      else if month = 4 \<or> month = 6 \<or> month = 9 \<or> month = 11 then 30
      else 31)"

definition daysBefore :: "nat \<Rightarrow> nat \<Rightarrow> nat" where
  "daysBefore month year =
     [0, 31, 59, 90, 120, 151, 181, 212, 243, 273, 304, 334] ! (month - 1)
       + (if isLeap year \<and> 2 < month then 1 else 0)"

definition daysSinceEpoch :: "nat \<Rightarrow> nat \<Rightarrow> nat \<Rightarrow> int" where
  "daysSinceEpoch year month day =
     int (365 * year + (year + 3) div 4 + (year + 399) div 400 + daysBefore month year + (day - 1))
       - int ((year + 99) div 100) - 719528"

definition Date :: "nat \<Rightarrow> nat \<Rightarrow> nat \<Rightarrow> nat \<Rightarrow> nat \<Rightarrow> nat \<Rightarrow> Time" where
  "Date year month day hour minute sec =
     ((daysSinceEpoch year month day * 86400 + int (hour * 3600 + minute * 60 + sec)) * 1000000000)"

text \<open>
  \<^verbatim>\<open>time.Parse(time.RFC3339, s)\<close> on the strings \<^verbatim>\<open>cleanupOldLogs\<close> passes to it, which have
  exactly 20 bytes. The layout is \<^verbatim>\<open>2006-01-02T15:04:05Z07:00\<close>; in 20 bytes there is room
  for the date, the \<open>T\<close>, a two-digit hour, minute and second and a one-byte zone, which
  can only be \<open>Z\<close>. The fields are range-checked (month 1 to 12, the day against the
  month's length, hour below 24, minute and second below 60) and the result is in UTC.
  \<open>sub s i j\<close> is the Go slice \<^verbatim>\<open>s[i:j]\<close> of a string that is long enough.
\<close>

definition isDigit :: "char \<Rightarrow> bool" where
  "isDigit c = (48 \<le> (of_char c :: nat) \<and> (of_char c :: nat) \<le> 57)"

definition digitVal :: "char \<Rightarrow> nat" where
  "digitVal c = of_char c - 48"

fun parseUint :: "string \<Rightarrow> nat" where
  "parseUint [] = 0"
| "parseUint (c # cs) = digitVal c * 10 ^ length cs + parseUint cs"

definition sub :: "string \<Rightarrow> nat \<Rightarrow> nat \<Rightarrow> string" where
  "sub s i j = take (j - i) (drop i s)"

definition layout_matches :: "string \<Rightarrow> bool" where
  "layout_matches s =
     (length s = 20
      \<and> list_all isDigit (sub s 0 4) \<and> s ! 4 = CHR ''-''
      \<and> list_all isDigit (sub s 5 7) \<and> s ! 7 = CHR ''-''
      \<and> list_all isDigit (sub s 8 10) \<and> s ! 10 = CHR ''T''
      \<and> list_all isDigit (sub s 11 13) \<and> s ! 13 = CHR '':''
      \<and> list_all isDigit (sub s 14 16) \<and> s ! 16 = CHR '':''
      \<and> list_all isDigit (sub s 17 19) \<and> s ! 19 = CHR ''Z'')"

definition time_Parse_RFC3339 :: "string \<Rightarrow> Time option" where
  "time_Parse_RFC3339 s =
     (if layout_matches s
      then
        (let year = parseUint (sub s 0 4); month = parseUint (sub s 5 7);
             day = parseUint (sub s 8 10); hour = parseUint (sub s 11 13);
             minute = parseUint (sub s 14 16); sec = parseUint (sub s 17 19)
         in if 1 \<le> month \<and> month \<le> 12 \<and> 1 \<le> day \<and> day \<le> daysIn month year
               \<and> hour < 24 \<and> minute < 60 \<and> sec < 60
            then Some (Date year month day hour minute sec) else None)
      else None)"

section \<open>The retention store: \<^verbatim>\<open>cleanupOldLogs\<close>\<close>

text \<open>
  A Go byte slice is its bytes together with the room its backing array has beyond
  them (capacity minus length). \<^verbatim>\<open>os.ReadFile\<close> returns the file's bytes in a buffer that
  is larger than the file, filled with zero bytes beyond the content.

  \<^verbatim>\<open>bytes.Split\<close> cuts at every newline; the text after the last newline is a piece too,
  so the result is never empty. Every piece but the last is returned with capacity equal
  to its length (Go 1.10 and later); the last piece is the rest of the buffer and keeps
  the buffer's spare room.
\<close>

datatype panic = SliceBoundsOutOfRange

type_synonym byte_slice = "string \<times> nat"

fun bytes_Split :: "string \<Rightarrow> string list" where
  "bytes_Split [] = [[]]"
| "bytes_Split (c # cs) =
     (if c = CHR ''\<newline>'' then [] # bytes_Split cs
      else (c # hd (bytes_Split cs)) # tl (bytes_Split cs))"

definition entries_of :: "byte_slice \<Rightarrow> byte_slice list" where
  "entries_of logEntries =
     (let pieces = bytes_Split (fst logEntries)
      in map (\<lambda>p. (p, 0)) (butlast pieces) @ [(last pieces, snd logEntries)])"

text \<open>
  The slice expression \<^verbatim>\<open>entry[:n]\<close>: Go checks \<open>n\<close> against the capacity, not the length,
  and panics when it is larger; below the capacity it yields the bytes of the backing
  array.
\<close>

definition slice_to :: "nat \<Rightarrow> byte_slice \<Rightarrow> panic + string" where
  "slice_to n entry =
     (if n \<le> length (fst entry) + snd entry
      then Inr (take n (fst entry @ replicate (snd entry) (CHR 0x00)))
      else Inl SliceBoundsOutOfRange)"

text \<open>
  The \<^verbatim>\<open>range\<close> loop of lines 110 to 118, with \<^verbatim>\<open>recentLogs\<close> as the accumulator. A panic
  ends the goroutine and with it the process.
\<close>

fun cleanup_range :: "Time \<Rightarrow> byte_slice list \<Rightarrow> string \<Rightarrow> panic + string" where
  "cleanup_range cutoff [] recentLogs = Inr recentLogs"
| "cleanup_range cutoff (entry # rest) recentLogs =
     (if length (fst entry) = 0 then cleanup_range cutoff rest recentLogs
      else
        (case slice_to 20 entry of
           Inl p \<Rightarrow> Inl p
         | Inr stamp \<Rightarrow>
             (case time_Parse_RFC3339 stamp of
                Some logTime \<Rightarrow>
                  (if cutoff < logTime
                   then cleanup_range cutoff rest (recentLogs @ fst entry @ ''\<newline>'')
                   else cleanup_range cutoff rest recentLogs)
              | None \<Rightarrow> cleanup_range cutoff rest recentLogs)))"

text \<open>Lines 107 to 118: from the bytes read and the cutoff to the bytes to write.\<close>

definition cleanup_filter :: "Time \<Rightarrow> byte_slice \<Rightarrow> panic + string" where
  "cleanup_filter cutoff logEntries = cleanup_range cutoff (entries_of logEntries) []"

text \<open>
  One cycle, after the sleep: \<open>readFile\<close> is what \<^verbatim>\<open>os.ReadFile\<close> returns (an error or the
  buffer), \<open>now\<close> what \<^verbatim>\<open>time.Now()\<close> returns and \<open>writeErr\<close> what \<^verbatim>\<open>os.WriteFile\<close> answers.
\<close>

definition cleanupOldLogs_cycle ::
  "string + byte_slice \<Rightarrow> Time \<Rightarrow> string option \<Rightarrow> panic + action list" where
  "cleanupOldLogs_cycle readFile now writeErr =
     (case readFile of
        Inl err \<Rightarrow> Inr [Log 103 (''Failed to read log file: '' @ err)]
      | Inr logEntries \<Rightarrow>
          (case cleanup_filter (now - logRetentionDuration) logEntries of
             Inl p \<Rightarrow> Inl p
           | Inr recentLogs \<Rightarrow>
               Inr (WriteFile recentLogs #
                     (case writeErr of
                        None \<Rightarrow> []
                      | Some err \<Rightarrow> [Log 121 (''Failed to write log file: '' @ err)]))))"

text \<open>
  The loop over the cycles that have come so far: what was done, and the panic that
  ended the process if there was one. After a panic no later cycle runs.
\<close>

fun cleanupOldLogs ::
  "((string + byte_slice) \<times> Time \<times> string option) list \<Rightarrow> action list \<times> panic option" where
  "cleanupOldLogs [] = ([], None)"
| "cleanupOldLogs ((readFile, now, writeErr) # cycles) =
     (case cleanupOldLogs_cycle readFile now writeErr of
        Inl p \<Rightarrow> ([], Some p)
      | Inr done \<Rightarrow>
          (let (later, ended) = cleanupOldLogs cycles in (done @ later, ended)))"

text \<open>
  The spec's rule for a line, in its own words: it is kept when it is not empty, its
  leading 20 characters parse as RFC3339 and the parsed time is after the cutoff. The
  kept lines are written back one per line.
\<close>

definition spec_keeps :: "Time \<Rightarrow> string \<Rightarrow> bool" where
  "spec_keeps cutoff line =
     (line \<noteq> [] \<and> 20 \<le> length line \<and>
      (case time_Parse_RFC3339 (take 20 line) of None \<Rightarrow> False | Some t \<Rightarrow> cutoff < t))"

definition terminated :: "string list \<Rightarrow> string" where
  "terminated ls = concat (map (\<lambda>l. l @ ''\<newline>'') ls)"

definition spec_compaction :: "Time \<Rightarrow> string \<Rightarrow> string" where
  "spec_compaction cutoff content = terminated (filter (spec_keeps cutoff) (bytes_Split content))"

text \<open>
  Two auxiliary predicates on an entry of the loop: whether the loop appends it, and
  whether the loop gets past its slice expression.
\<close>

definition slice_kept :: "Time \<Rightarrow> byte_slice \<Rightarrow> bool" where
  "slice_kept cutoff entry =
     (fst entry \<noteq> [] \<and>
      (case slice_to 20 entry of
         Inl p \<Rightarrow> False
       | Inr stamp \<Rightarrow>
           (case time_Parse_RFC3339 stamp of None \<Rightarrow> False | Some t \<Rightarrow> cutoff < t)))"

definition can_slice :: "byte_slice \<Rightarrow> bool" where
  "can_slice entry = (fst entry = [] \<or> 20 \<le> length (fst entry) + snd entry)"

section \<open>Facts about the parser and the splitter\<close>

lemma parse_layout: "time_Parse_RFC3339 s = Some t \<Longrightarrow> layout_matches s"
  unfolding time_Parse_RFC3339_def by (cases "layout_matches s") simp_all

lemma parse_shape:
  assumes "time_Parse_RFC3339 s = Some t"
  shows "length s = 20" and "s ! 19 = CHR ''Z''"
  using parse_layout [OF assms] unfolding layout_matches_def by blast+

lemma bytes_Split_not_Nil: "bytes_Split s \<noteq> []"
  by (induction s) auto

lemma bytes_Split_no_newline: "p \<in> set (bytes_Split s) \<Longrightarrow> CHR ''\<newline>'' \<notin> set p"
proof (induction s arbitrary: p)
  case Nil
  then show ?case by simp
next
  case (Cons c cs)
  obtain q qs where q: "bytes_Split cs = q # qs"
    using bytes_Split_not_Nil [of cs] by (cases "bytes_Split cs") auto
  show ?case
  proof (cases "c = CHR ''\<newline>''")
    case True
    with Cons show ?thesis by auto
  next
    case False
    with Cons.prems q have "p = c # q \<or> p \<in> set qs" by auto
    then show ?thesis
    proof
      assume "p = c # q"
      moreover have "CHR ''\<newline>'' \<notin> set q" using Cons.IH [of q] q by simp
      ultimately show ?thesis using False by auto
    next
      assume "p \<in> set qs"
      then show ?thesis using Cons.IH [of p] q by simp
    qed
  qed
qed

lemma bytes_Split_line:
  "CHR ''\<newline>'' \<notin> set p \<Longrightarrow> bytes_Split (p @ CHR ''\<newline>'' # s) = p # bytes_Split s"
  by (induction p) auto

lemma bytes_Split_terminated:
  "\<forall>p \<in> set ps. CHR ''\<newline>'' \<notin> set p \<Longrightarrow> bytes_Split (terminated ps) = ps @ [[]]"
  by (induction ps) (auto simp: terminated_def bytes_Split_line)

lemma map_fst_entries_of: "map fst (entries_of (content, spare)) = bytes_Split content"
  using bytes_Split_not_Nil [of content]
  by (simp add: entries_of_def Let_def comp_def)

lemma slice_kept_spec: "slice_kept cutoff (bs, spare) = spec_keeps cutoff bs"
proof (cases "20 \<le> length bs")
  case True
  then show ?thesis
    by (auto simp: slice_kept_def spec_keeps_def slice_to_def)
next
  case short: False
  have "\<not> slice_kept cutoff (bs, spare)"
  proof (cases "20 \<le> length bs + spare")
    case True
    let ?p = "take 20 (bs @ replicate spare (CHR 0x00))"
    have "?p ! 19 = CHR 0x00"
      using short True by (simp add: nth_append)
    then have "time_Parse_RFC3339 ?p = None"
      using parse_shape(2) [of ?p] by (cases "time_Parse_RFC3339 ?p") auto
    then show ?thesis by (simp add: slice_kept_def slice_to_def True)
  next
    case False
    then show ?thesis by (simp add: slice_kept_def slice_to_def)
  qed
  moreover have "\<not> spec_keeps cutoff bs"
    using short by (simp add: spec_keeps_def)
  ultimately show ?thesis by simp
qed

lemma filter_slice_kept:
  "map fst (filter (slice_kept cutoff) es) = filter (spec_keeps cutoff) (map fst es)"
  by (induction es) (auto simp: slice_kept_spec)

lemma terminated_Nil: "terminated [] = []"
  by (simp add: terminated_def)

lemma terminated_Cons: "terminated (l # ls) = l @ CHR ''\<newline>'' # terminated ls"
  by (simp add: terminated_def)

lemma cleanup_range_step:
  "cleanup_range cutoff (e # es) acc =
     (if \<not> can_slice e then Inl SliceBoundsOutOfRange
      else cleanup_range cutoff es (if slice_kept cutoff e then acc @ fst e @ ''\<newline>'' else acc))"
proof (cases "fst e = []")
  case True
  then show ?thesis by (simp add: can_slice_def slice_kept_def)
next
  case nonempty: False
  show ?thesis
  proof (cases "20 \<le> length (fst e) + snd e")
    case True
    then show ?thesis
      using nonempty
      by (cases "time_Parse_RFC3339 (take 20 (fst e @ replicate (snd e) (CHR 0x00)))")
         (simp_all add: can_slice_def slice_kept_def slice_to_def)
  next
    case False
    then show ?thesis
      using nonempty by (simp add: can_slice_def slice_to_def)
  qed
qed

lemma cleanup_range_Inr:
  "cleanup_range cutoff es acc = Inr out \<Longrightarrow>
     out = acc @ terminated (map fst (filter (slice_kept cutoff) es))"
proof (induction es arbitrary: acc)
  case Nil
  then show ?case by (simp add: terminated_Nil)
next
  case (Cons e es)
  show ?case
  proof (cases "can_slice e")
    case True
    with Cons.prems
    have "cleanup_range cutoff es (if slice_kept cutoff e then acc @ fst e @ ''\<newline>'' else acc) = Inr out"
      by (simp only: cleanup_range_step if_False not_True_eq_False)
    from Cons.IH [OF this] show ?thesis
      by (simp add: terminated_Cons)
  next
    case False
    with Cons.prems show ?thesis
      unfolding cleanup_range_step by simp
  qed
qed

lemma cleanup_range_total:
  "\<forall>e \<in> set es. can_slice e \<Longrightarrow>
     cleanup_range cutoff es acc = Inr (acc @ terminated (map fst (filter (slice_kept cutoff) es)))"
proof (induction es arbitrary: acc)
  case Nil
  then show ?case by (simp add: terminated_Nil)
next
  case (Cons e es)
  then have e: "can_slice e" and rest: "\<forall>x \<in> set es. can_slice x"
    by simp_all
  show ?case
    unfolding cleanup_range_step
    using e Cons.IH [OF rest] by (simp add: terminated_Cons)
qed

lemma cleanup_range_panics:
  "e \<in> set es \<Longrightarrow> \<not> can_slice e \<Longrightarrow> cleanup_range cutoff es acc = Inl SliceBoundsOutOfRange"
proof (induction es arbitrary: acc)
  case Nil
  then show ?case by simp
next
  case (Cons x xs)
  show ?case
  proof (cases "can_slice x")
    case True
    with Cons.prems have "e \<in> set xs" by auto
    from Cons.IH [OF this Cons.prems(2)] True show ?thesis
      unfolding cleanup_range_step by simp
  next
    case False
    then show ?thesis unfolding cleanup_range_step by simp
  qed
qed

lemma cleanup_filter_Inr: "cleanup_filter cutoff (content, spare) = Inr out \<Longrightarrow> out = spec_compaction cutoff content"
  using cleanup_range_Inr [of cutoff "entries_of (content, spare)" "[]" out]
  by (simp add: cleanup_filter_def spec_compaction_def filter_slice_kept map_fst_entries_of)

lemma cleanup_filter_total:
  "\<forall>e \<in> set (entries_of (content, spare)). can_slice e \<Longrightarrow>
     cleanup_filter cutoff (content, spare) = Inr (spec_compaction cutoff content)"
  using cleanup_range_total [of "entries_of (content, spare)" cutoff "[]"]
  by (simp add: cleanup_filter_def spec_compaction_def filter_slice_kept map_fst_entries_of)

lemma entries_of_terminated:
  "\<forall>p \<in> set ps. CHR ''\<newline>'' \<notin> set p \<Longrightarrow>
     entries_of (terminated ps, spare) = map (\<lambda>p. (p, 0)) ps @ [([], spare)]"
  by (simp add: entries_of_def bytes_Split_terminated)

lemma spec_compaction_again:
  "cleanup_filter cutoff (spec_compaction cutoff content, spare) = Inr (spec_compaction cutoff content)"
proof -
  let ?kept = "filter (spec_keeps cutoff) (bytes_Split content)"
  have nonl: "\<forall>p \<in> set ?kept. CHR ''\<newline>'' \<notin> set p"
    using bytes_Split_no_newline by auto
  have ents: "entries_of (terminated ?kept, spare) = map (\<lambda>p. (p, 0)) ?kept @ [([], spare)]"
    using entries_of_terminated [OF nonl] .
  have ok: "\<forall>e \<in> set (entries_of (terminated ?kept, spare)). can_slice e"
    unfolding ents by (auto simp: can_slice_def spec_keeps_def)
  have "\<not> spec_keeps cutoff []"
    by (simp add: spec_keeps_def)
  then have "filter (spec_keeps cutoff) (bytes_Split (terminated ?kept)) = ?kept"
    unfolding bytes_Split_terminated [OF nonl] by simp
  then have "spec_compaction cutoff (terminated ?kept) = terminated ?kept"
    by (simp add: spec_compaction_def)
  with cleanup_filter_total [OF ok, of cutoff] show ?thesis
    by (simp add: spec_compaction_def)
qed

lemma cleanup_filter_panics:
  "e \<in> set (entries_of (content, spare)) \<Longrightarrow> \<not> can_slice e \<Longrightarrow>
     cleanup_filter cutoff (content, spare) = Inl SliceBoundsOutOfRange"
  unfolding cleanup_filter_def by (rule cleanup_range_panics)

lemma lines_can_slice:
  assumes "\<forall>line \<in> set (bytes_Split content). line = [] \<or> 20 \<le> length line"
  shows "\<forall>e \<in> set (entries_of (content, spare)). can_slice e"
proof
  fix e
  assume "e \<in> set (entries_of (content, spare))"
  then have "fst e \<in> fst ` set (entries_of (content, spare))"
    by (rule imageI)
  also have "fst ` set (entries_of (content, spare)) = set (map fst (entries_of (content, spare)))"
    by simp
  also have "\<dots> = set (bytes_Split content)"
    by (simp only: map_fst_entries_of)
  finally have "fst e = [] \<or> 20 \<le> length (fst e)"
    using assms by blast
  then show "can_slice e"
    by (auto simp: can_slice_def)
qed

lemma kept_lines_read_back:
  "bytes_Split (spec_compaction cutoff content)
     = filter (spec_keeps cutoff) (bytes_Split content) @ [[]]"
proof -
  have "\<forall>p \<in> set (filter (spec_keeps cutoff) (bytes_Split content)). CHR ''\<newline>'' \<notin> set p"
    using bytes_Split_no_newline by auto
  then show ?thesis
    unfolding spec_compaction_def by (rule bytes_Split_terminated)
qed

lemma bytes_Split_single: "CHR ''\<newline>'' \<notin> set p \<Longrightarrow> bytes_Split p = [p]"
  by (induction p) auto

text \<open>
  From here on the splitter is evaluated through \<open>bytes_Split_line\<close> and
  \<open>bytes_Split_single\<close>, a line at a time.
\<close>

declare bytes_Split.simps(2) [simp del]

lemma bytes_Split_newline: "bytes_Split (CHR ''\<newline>'' # cs) = [] # bytes_Split cs"
  by (simp add: bytes_Split.simps(2))

lemma Date_2023: "Date 2023 1 1 0 0 0 = 1672531200000000000"
  by (simp add: Date_def daysSinceEpoch_def daysBefore_def isLeap_def)

lemma parse_2023: "time_Parse_RFC3339 ''2023-01-01T00:00:00Z'' = Some 1672531200000000000"
  unfolding time_Parse_RFC3339_def layout_matches_def
  by (simp add: sub_def isDigit_def digitVal_def Date_def daysSinceEpoch_def daysBefore_def
        daysIn_def isLeap_def)

lemma parse_not_a_timestamp: "time_Parse_RFC3339 ''not-a-timestamp-but-'' = None"
  unfolding time_Parse_RFC3339_def layout_matches_def
  by (simp add: sub_def isDigit_def)

lemma example_split:
  "bytes_Split (''2023-01-01T00:00:00Z hello\<newline>\<newline>not-a-timestamp-but-20chars!!'')
     = [''2023-01-01T00:00:00Z hello'', [], ''not-a-timestamp-but-20chars!!'']"
proof -
  have "bytes_Split (''2023-01-01T00:00:00Z hello''
                       @ CHR ''\<newline>'' # CHR ''\<newline>'' # ''not-a-timestamp-but-20chars!!'')
          = ''2023-01-01T00:00:00Z hello''
              # bytes_Split (CHR ''\<newline>'' # ''not-a-timestamp-but-20chars!!'')"
    by (rule bytes_Split_line) simp
  moreover have "bytes_Split ''not-a-timestamp-but-20chars!!'' = [''not-a-timestamp-but-20chars!!'']"
    by (rule bytes_Split_single) simp
  ultimately show ?thesis
    by (simp add: bytes_Split_newline)
qed

lemma example_first: "spec_keeps cutoff ''2023-01-01T00:00:00Z hello'' = (cutoff < 1672531200000000000)"
  by (simp add: spec_keeps_def parse_2023)

lemma example_third: "\<not> spec_keeps cutoff ''not-a-timestamp-but-20chars!!''"
  by (simp add: spec_keeps_def parse_not_a_timestamp)

lemma example_empty: "\<not> spec_keeps cutoff []"
  by (simp add: spec_keeps_def)

lemma example_result:
  assumes "cutoff < Date 2023 1 1 0 0 0"
  shows "cleanup_filter cutoff
           (''2023-01-01T00:00:00Z hello\<newline>\<newline>not-a-timestamp-but-20chars!!'', spare)
         = Inr (''2023-01-01T00:00:00Z hello\<newline>'')"
proof -
  let ?content = "''2023-01-01T00:00:00Z hello\<newline>\<newline>not-a-timestamp-but-20chars!!''"
  have "\<forall>line \<in> set (bytes_Split ?content). line = [] \<or> 20 \<le> length line"
    unfolding example_split by simp
  then have "cleanup_filter cutoff (?content, spare) = Inr (spec_compaction cutoff ?content)"
    by (intro cleanup_filter_total lines_can_slice)
  moreover from assms have "cutoff < 1672531200000000000"
    unfolding Date_2023 .
  then have "spec_compaction cutoff ?content = ''2023-01-01T00:00:00Z hello\<newline>''"
    unfolding spec_compaction_def example_split
    by (simp add: example_first example_third example_empty terminated_Cons terminated_Nil)
  ultimately show ?thesis by simp
qed

lemma short_entries: "entries_of (''short\<newline>'', spare) = [(''short'', 0), ([], spare)]"
proof -
  have "bytes_Split (''short'' @ CHR ''\<newline>'' # []) = ''short'' # bytes_Split []"
    by (rule bytes_Split_line) simp
  then show ?thesis
    by (simp add: entries_of_def)
qed

lemma short_filter: "cleanup_filter cutoff (''short\<newline>'', spare) = Inl SliceBoundsOutOfRange"
  by (rule cleanup_filter_panics [of "(''short'', 0)"])
     (simp_all add: short_entries can_slice_def)

lemma mixed_split:
  "bytes_Split ''short\<newline>2023-01-01T00:00:00Z hello\<newline>''
     = [''short'', ''2023-01-01T00:00:00Z hello'', []]"
proof -
  have "bytes_Split (''short'' @ CHR ''\<newline>'' # ''2023-01-01T00:00:00Z hello'' @ CHR ''\<newline>'' # [])
          = ''short'' # bytes_Split (''2023-01-01T00:00:00Z hello'' @ CHR ''\<newline>'' # [])"
    by (rule bytes_Split_line) simp
  moreover have "bytes_Split (''2023-01-01T00:00:00Z hello'' @ CHR ''\<newline>'' # [])
          = ''2023-01-01T00:00:00Z hello'' # bytes_Split []"
    by (rule bytes_Split_line) simp
  ultimately show ?thesis
    by simp
qed

lemma mixed_filter:
  "cleanup_filter cutoff (''short\<newline>2023-01-01T00:00:00Z hello\<newline>'', spare)
     = Inl SliceBoundsOutOfRange"
  by (rule cleanup_filter_panics [of "(''short'', 0)"])
     (simp_all add: entries_of_def mixed_split can_slice_def)

lemma short_not_kept: "\<not> spec_keeps cutoff ''short''"
  by (simp add: spec_keeps_def)

section \<open>Facts about the monitor loop\<close>

lemma iteration_changed:
  "currentState \<noteq> lastState v \<Longrightarrow>
     monitor_iteration slackToken slackChannel currentState sendErr v
       = (v\<lparr>lastState := currentState, state := (currentState = Low)\<rparr>,
          Log 135 (''Switch state changed to: '' @ fmt_bool (currentState = Low) @ ''\<newline>'')
            # sendSlackMessage slackToken slackChannel
                (''Switch state changed to: '' @ fmt_bool (currentState = Low)) sendErr)"
  by (simp add: monitor_iteration_def Let_def)

lemma iteration_unchanged:
  "currentState = lastState v \<Longrightarrow>
     monitor_iteration slackToken slackChannel currentState sendErr v = (v, [])"
  by (simp add: monitor_iteration_def)

lemma iteration_lastState:
  "lastState (fst (monitor_iteration slackToken slackChannel currentState sendErr v)) = currentState"
  by (cases "currentState = lastState v") (simp_all add: iteration_changed iteration_unchanged)

lemma iteration_posts:
  "length (filter is_PostMessage
             (snd (monitor_iteration slackToken slackChannel currentState sendErr v)))
     = (if currentState \<noteq> lastState v then 1 else 0)"
  by (cases sendErr)
     (simp_all add: monitor_iteration_def Let_def sendSlackMessage_def)

lemma loop_Cons:
  "monitor_loop slackToken slackChannel (tick # ticks) v
     = (fst (monitor_loop slackToken slackChannel ticks
               (fst (monitor_iteration slackToken slackChannel (fst tick) (snd tick) v))),
        snd (monitor_iteration slackToken slackChannel (fst tick) (snd tick) v)
          # snd (monitor_loop slackToken slackChannel ticks
                   (fst (monitor_iteration slackToken slackChannel (fst tick) (snd tick) v))))"
  by (simp add: case_prod_beta Let_def)

lemma loop_append:
  "monitor_loop slackToken slackChannel (ts @ us) v
     = (fst (monitor_loop slackToken slackChannel us
               (fst (monitor_loop slackToken slackChannel ts v))),
        snd (monitor_loop slackToken slackChannel ts v)
          @ snd (monitor_loop slackToken slackChannel us
                   (fst (monitor_loop slackToken slackChannel ts v))))"
proof (induction ts arbitrary: v)
  case Nil
  show ?case by simp
next
  case (Cons t ts)
  show ?case
    unfolding append_Cons loop_Cons Cons.IH by simp
qed

lemma loop_lastState:
  "lastState (fst (monitor_loop slackToken slackChannel ticks v))
     = last (lastState v # map fst ticks)"
proof (induction ticks arbitrary: v)
  case Nil
  show ?case by simp
next
  case (Cons t ts)
  show ?case
    unfolding loop_Cons fst_conv Cons.IH iteration_lastState by simp
qed

lemma loop_posts:
  "notifications_sent (snd (monitor_loop slackToken slackChannel ticks v))
     = spec_level_changes (lastState v # map fst ticks)"
proof (induction ticks arbitrary: v)
  case Nil
  show ?case by (simp add: notifications_sent_def)
next
  case (Cons t ts)
  have "notifications_sent (snd (monitor_loop slackToken slackChannel (t # ts) v))
          = length (filter is_PostMessage
                      (snd (monitor_iteration slackToken slackChannel (fst t) (snd t) v)))
            + notifications_sent
                (snd (monitor_loop slackToken slackChannel ts
                        (fst (monitor_iteration slackToken slackChannel (fst t) (snd t) v))))"
    unfolding loop_Cons by (simp add: notifications_sent_def)
  also have "\<dots> = (if fst t \<noteq> lastState v then 1 else 0)
                    + spec_level_changes (fst t # map fst ts)"
    unfolding Cons.IH iteration_posts iteration_lastState ..
  also have "\<dots> = spec_level_changes (lastState v # map fst (t # ts))"
    by auto
  finally show ?case .
qed

lemma loop_quiet:
  "monitor_loop slackToken slackChannel (map (Pair (lastState v)) answers) v
     = (v, replicate (length answers) [])"
proof (induction answers)
  case Nil
  show ?case by simp
next
  case (Cons a answers)
  show ?case
    unfolding list.map loop_Cons fst_conv snd_conv
    by (simp add: iteration_unchanged Cons.IH)
qed

lemma loop_snoc:
  "monitor_loop slackToken slackChannel (ticks @ [(currentState, sendErr)]) v
     = (fst (monitor_iteration slackToken slackChannel currentState sendErr
               (fst (monitor_loop slackToken slackChannel ticks v))),
        snd (monitor_loop slackToken slackChannel ticks v)
          @ [snd (monitor_iteration slackToken slackChannel currentState sendErr
                    (fst (monitor_loop slackToken slackChannel ticks v)))])"
  unfolding loop_append by (simp add: case_prod_beta Let_def)

lemma state_after_change:
  assumes "currentState \<noteq> last (Level_zero # map fst ticks)"
  shows "state (fst (monitorSwitch slackToken slackChannel
                       (ticks @ (currentState, sendErr) # map (Pair currentState) answers)
                       state0))
           = (currentState = Low)"
proof -
  let ?init = "\<lparr>lastState = Level_zero, state = state0\<rparr>"
  let ?before = "fst (monitor_loop slackToken slackChannel ticks ?init)"
  let ?after = "?before\<lparr>lastState := currentState, state := (currentState = Low)\<rparr>"
  have "lastState ?before = last (Level_zero # map fst ticks)"
    unfolding loop_lastState by simp
  with assms have changed: "currentState \<noteq> lastState ?before"
    by simp
  have quiet: "monitor_loop slackToken slackChannel (map (Pair currentState) answers) ?after
                 = (?after, replicate (length answers) [])"
    using loop_quiet [of slackToken slackChannel ?after answers] by simp
  have written: "fst (monitor_iteration slackToken slackChannel currentState sendErr ?before) = ?after"
    unfolding iteration_changed [OF changed] by simp
  have "fst (monitor_loop slackToken slackChannel
               (ticks @ (currentState, sendErr) # map (Pair currentState) answers) ?init)
          = fst (monitor_loop slackToken slackChannel
                   ((currentState, sendErr) # map (Pair currentState) answers) ?before)"
    by (subst loop_append) simp
  also have "\<dots> = fst (monitor_loop slackToken slackChannel (map (Pair currentState) answers) ?after)"
    by (subst loop_Cons) (simp add: written)
  also have "\<dots> = ?after"
    unfolding quiet by simp
  finally show ?thesis
    by (simp add: monitorSwitch_def)
qed

section \<open>Facts about the logger's header\<close>

declare itoa.simps [simp del]

lemma isDigit_char_of: "d < 10 \<Longrightarrow> isDigit (char_of (48 + d))" for d :: nat
  by (simp add: isDigit_def)

lemma itoa_digits: "list_all isDigit (itoa i wid)"
proof (induction i wid rule: itoa.induct)
  case (1 i wid)
  show ?case
  proof (cases "10 \<le> i \<or> 1 < wid")
    case True
    then have "itoa i wid = itoa (i div 10) (wid - 1) @ [char_of (48 + i mod 10)]"
      by (subst itoa.simps) simp
    moreover have "isDigit (char_of (48 + i mod 10))"
      by (rule isDigit_char_of) simp
    ultimately show ?thesis
      using "1.IH" [OF True] by simp
  next
    case False
    then have "itoa i wid = [char_of (48 + i)]"
      by (subst itoa.simps) simp
    moreover from False have "isDigit (char_of (48 + i))"
      by (intro isDigit_char_of) simp
    ultimately show ?thesis by simp
  qed
qed

lemma itoa_length: "wid \<le> int (length (itoa i wid))"
proof (induction i wid rule: itoa.induct)
  case (1 i wid)
  show ?case
  proof (cases "10 \<le> i \<or> 1 < wid")
    case True
    then have "itoa i wid = itoa (i div 10) (wid - 1) @ [char_of (48 + i mod 10)]"
      by (subst itoa.simps) simp
    then show ?thesis
      using "1.IH" [OF True] by simp
  next
    case False
    then have "itoa i wid = [char_of (48 + i)]"
      by (subst itoa.simps) simp
    with False show ?thesis by simp
  qed
qed

lemma header_fifth_byte: "(itoa year 4 @ CHR ''/'' # rest) ! 4 \<noteq> CHR ''-''"
proof (cases "length (itoa year 4) = 4")
  case True
  then show ?thesis by (simp add: nth_append)
next
  case False
  with itoa_length [of 4 year] have longer: "4 < length (itoa year 4)"
    by simp
  then have "isDigit (itoa year 4 ! 4)"
    using itoa_digits [of year 4] by (simp add: list_all_length)
  moreover have "\<not> isDigit (CHR ''-'')"
    by (simp add: isDigit_def)
  ultimately have "itoa year 4 ! 4 \<noteq> CHR ''-''"
    by auto
  with longer show ?thesis by (simp add: nth_append)
qed

lemma logged_never_parses:
  "time_Parse_RFC3339 (take 20 (log_Output year month day hour minute sec line s)) = None"
proof (rule ccontr)
  let ?entry = "log_Output year month day hour minute sec line s"
  assume "time_Parse_RFC3339 (take 20 ?entry) \<noteq> None"
  then obtain t where "time_Parse_RFC3339 (take 20 ?entry) = Some t"
    by auto
  then have "layout_matches (take 20 ?entry)"
    by (rule parse_layout)
  then have "take 20 ?entry ! 4 = CHR ''-''"
    unfolding layout_matches_def by blast
  then have "?entry ! 4 = CHR ''-''"
    by simp
  moreover obtain rest where "?entry = itoa year 4 @ CHR ''/'' # rest"
    unfolding log_Output_def formatHeader_def by simp
  ultimately show False
    using header_fifth_byte [of year rest] by simp
qed

lemma logged_example:
  "log_Output 2023 1 1 0 0 0 69 ''Failed to find pin GPIO17''
     = ''2023/01/01 00:00:00 main.go:69: Failed to find pin GPIO17\<newline>''"
  by (simp add: log_Output_def formatHeader_def itoa.simps char_of_eq_iff)

lemma logged_transition:
  "log_Output 2023 1 1 0 0 0 135 ''Switch state changed to: true\<newline>''
     = ''2023/01/01 00:00:00 main.go:135: Switch state changed to: true\<newline>''"
  by (simp add: log_Output_def formatHeader_def itoa.simps char_of_eq_iff)

lemma logged_example_split:
  "bytes_Split ''2023/01/01 00:00:00 main.go:69: Failed to find pin GPIO17\<newline>''
     = [''2023/01/01 00:00:00 main.go:69: Failed to find pin GPIO17'', []]"
proof -
  have "bytes_Split (''2023/01/01 00:00:00 main.go:69: Failed to find pin GPIO17''
                       @ CHR ''\<newline>'' # [])
          = ''2023/01/01 00:00:00 main.go:69: Failed to find pin GPIO17'' # bytes_Split []"
    by (rule bytes_Split_line) simp
  then show ?thesis
    by simp
qed

lemma logged_example_dropped:
  "cleanup_filter cutoff
     (''2023/01/01 00:00:00 main.go:69: Failed to find pin GPIO17\<newline>'', spare)
     = Inr []"
proof -
  let ?content = "''2023/01/01 00:00:00 main.go:69: Failed to find pin GPIO17\<newline>''"
  have "\<forall>line \<in> set (bytes_Split ?content). line = [] \<or> 20 \<le> length line"
    unfolding logged_example_split by simp
  then have "cleanup_filter cutoff (?content, spare) = Inr (spec_compaction cutoff ?content)"
    by (intro cleanup_filter_total lines_can_slice)
  moreover have "time_Parse_RFC3339 ''2023/01/01 00:00:00 '' = None"
    by (simp add: time_Parse_RFC3339_def layout_matches_def)
  then have "spec_compaction cutoff ?content = []"
    unfolding spec_compaction_def logged_example_split
    by (simp add: spec_keeps_def terminated_Nil)
  ultimately show ?thesis by simp
qed

section \<open>Facts about the opt-in handler\<close>

lemma handleOptIn_malformed:
  "ParseForm r = Some err \<Longrightarrow>
     handleOptIn r optInUsers = (http_Error ''Invalid request format'' 400, optInUsers)"
  by (simp add: handleOptIn_def)

lemma handleOptIn_rejected:
  "ParseForm r = None \<Longrightarrow>
   FormValue r ''user_id'' = [] \<or> FormValue r ''token'' \<noteq> slackVerificationToken \<Longrightarrow>
     handleOptIn r optInUsers = (http_Error ''Invalid user or token'' 401, optInUsers)"
  by (simp add: handleOptIn_def Let_def)

lemma handleOptIn_accepted:
  "ParseForm r = None \<Longrightarrow> FormValue r ''user_id'' \<noteq> [] \<Longrightarrow>
   FormValue r ''token'' = slackVerificationToken \<Longrightarrow>
     handleOptIn r optInUsers
       = (\<lparr>status = 200, contentType = ''application/json'',
            body = JSON_strings
              [(''response_type'', ''ephemeral''),
               (''text'', ''You have opted in for notifications, <@''
                            @ FormValue r ''user_id'' @ ''>.'')]\<rparr>,
          optIn (FormValue r ''user_id'') optInUsers)"
  by (simp add: handleOptIn_def Let_def)

lemma optIn_twice: "optIn userID (optIn userID optInUsers) = optIn userID optInUsers"
  by (simp add: optIn_def)

lemma handleOptIn_twice:
  "snd (handleOptIn r (snd (handleOptIn r optInUsers))) = snd (handleOptIn r optInUsers)"
proof (cases "ParseForm r")
  case (Some err)
  then show ?thesis by (simp add: handleOptIn_malformed)
next
  case None
  show ?thesis
  proof (cases "FormValue r ''user_id'' = [] \<or> FormValue r ''token'' \<noteq> slackVerificationToken")
    case True
    with None show ?thesis by (simp add: handleOptIn_rejected)
  next
    case False
    with None show ?thesis by (simp add: handleOptIn_accepted optIn_twice)
  qed
qed

section \<open>The retention store: what a completed cycle writes\<close>

text \<open>
  Where a cycle gets to its output, the spec's rule is what it computes: the output is
  exactly the lines that are not empty, whose leading 20 characters parse as an RFC3339
  timestamp and whose parsed time is strictly after the cutoff, in order, each followed
  by a newline. The cycle does get to its output when every non-empty line has at least
  20 bytes. For the store made of the three lines
  \<open>2023-01-01T00:00:00Z hello\<close>, the empty line and \<open>not-a-timestamp-but-20chars!!\<close>
  and a cutoff before 2023-01-01, exactly the first line is kept.
\<close>

lemma cleanup_keeps_when_complete:
  "(cleanup_filter cutoff (content, spare) = Inr out
      \<longrightarrow> out = terminated (filter (spec_keeps cutoff) (bytes_Split content)))
   \<and> ((\<forall>line \<in> set (bytes_Split content). line = [] \<or> 20 \<le> length line)
      \<longrightarrow> cleanup_filter cutoff (content, spare)
            = Inr (terminated (filter (spec_keeps cutoff) (bytes_Split content))))
   \<and> (cutoff < Date 2023 1 1 0 0 0
      \<longrightarrow> cleanup_filter cutoff
            (''2023-01-01T00:00:00Z hello\<newline>\<newline>not-a-timestamp-but-20chars!!'', spare)
          = Inr (''2023-01-01T00:00:00Z hello\<newline>''))"
proof (intro conjI impI)
  assume "cleanup_filter cutoff (content, spare) = Inr out"
  then show "out = terminated (filter (spec_keeps cutoff) (bytes_Split content))"
    using cleanup_filter_Inr [of cutoff content spare out] by (simp add: spec_compaction_def)
next
  assume "\<forall>line \<in> set (bytes_Split content). line = [] \<or> 20 \<le> length line"
  then have "\<forall>e \<in> set (entries_of (content, spare)). can_slice e"
    by (rule lines_can_slice)
  then show "cleanup_filter cutoff (content, spare)
               = Inr (terminated (filter (spec_keeps cutoff) (bytes_Split content)))"
    using cleanup_filter_total [of content spare cutoff] by (simp add: spec_compaction_def)
next
  assume "cutoff < Date 2023 1 1 0 0 0"
  then show "cleanup_filter cutoff
               (''2023-01-01T00:00:00Z hello\<newline>\<newline>not-a-timestamp-but-20chars!!'', spare)
             = Inr (''2023-01-01T00:00:00Z hello\<newline>'')"
    by (rule example_result)
qed

lemma cleanup_keeps_when_complete_example:
  "(0 :: int) < Date 2023 1 1 0 0 0
   \<and> cleanup_filter 0
        (''2023-01-01T00:00:00Z hello\<newline>\<newline>not-a-timestamp-but-20chars!!'', 1)
      = Inr (''2023-01-01T00:00:00Z hello\<newline>'')
   \<and> ''2023-01-01T00:00:00Z hello\<newline>''
      = terminated (filter (spec_keeps 0)
          (bytes_Split (''2023-01-01T00:00:00Z hello\<newline>\<newline>not-a-timestamp-but-20chars!!'')))"
proof -
  have before: "(0 :: int) < Date 2023 1 1 0 0 0"
    unfolding Date_2023 by simp
  note inst = cleanup_keeps_when_complete [of 0
      "''2023-01-01T00:00:00Z hello\<newline>\<newline>not-a-timestamp-but-20chars!!''"
      1 "''2023-01-01T00:00:00Z hello\<newline>''"]
  from inst before have run: "cleanup_filter 0
        (''2023-01-01T00:00:00Z hello\<newline>\<newline>not-a-timestamp-but-20chars!!'', 1)
      = Inr (''2023-01-01T00:00:00Z hello\<newline>'')"
    by blast
  with inst have "''2023-01-01T00:00:00Z hello\<newline>''
      = terminated (filter (spec_keeps 0)
          (bytes_Split (''2023-01-01T00:00:00Z hello\<newline>\<newline>not-a-timestamp-but-20chars!!'')))"
    by blast
  with before run show ?thesis by blast
qed

section \<open>The claims about the retention store\<close>

text \<open>
  C3. The claim asks, for every store content, that a cycle keeps exactly the lines
  that are not empty, whose leading 20 characters parse as an RFC3339 timestamp and
  whose parsed time is strictly after the cutoff. The cycle does not meet it on the
  store of the two lines \<open>short\<close> and \<open>2023-01-01T00:00:00Z hello\<close>: with a cutoff
  before 2023-01-01 the rule drops the first line and keeps the second, but the slice
  expression \<^verbatim>\<open>entry[:20]\<close> panics at the first line, so the cycle writes nothing and the
  second line is not kept. It is the defect of C4.
\<close>

theorem short_line_loses_kept_line:
  "bytes_Split ''short\<newline>2023-01-01T00:00:00Z hello\<newline>''
     = [''short'', ''2023-01-01T00:00:00Z hello'', []]
   \<and> \<not> spec_keeps cutoff ''short''
   \<and> spec_keeps cutoff ''2023-01-01T00:00:00Z hello'' = (cutoff < Date 2023 1 1 0 0 0)
   \<and> cleanup_filter cutoff (''short\<newline>2023-01-01T00:00:00Z hello\<newline>'', spare)
      = Inl SliceBoundsOutOfRange
   \<and> cleanupOldLogs_cycle
        (Inr (''short\<newline>2023-01-01T00:00:00Z hello\<newline>'', spare)) now writeErr
      = Inl SliceBoundsOutOfRange"
proof -
  have "spec_keeps cutoff ''2023-01-01T00:00:00Z hello'' = (cutoff < Date 2023 1 1 0 0 0)"
    unfolding Date_2023 by (rule example_first)
  moreover have "cleanupOldLogs_cycle
        (Inr (''short\<newline>2023-01-01T00:00:00Z hello\<newline>'', spare)) now writeErr
      = Inl SliceBoundsOutOfRange"
    by (simp add: cleanupOldLogs_cycle_def mixed_filter)
  ultimately show ?thesis
    using mixed_split short_not_kept [of cutoff] mixed_filter [of cutoff spare]
    by blast
qed

text \<open>
  C4. The claim asks that no store content makes a cycle fail. The cycle does not meet
  it: on the store whose only line is \<open>short\<close>, followed by a newline, the slice
  expression \<^verbatim>\<open>entry[:20]\<close> panics, whatever the buffer's spare room, the time and the
  answer of the write; the loop ends there and no later cycle runs.
\<close>

theorem short_line_panics:
  "cleanupOldLogs_cycle (Inr (''short\<newline>'', spare)) now writeErr
     = Inl SliceBoundsOutOfRange
   \<and> cleanupOldLogs ((Inr (''short\<newline>'', spare), now, writeErr) # cycles)
     = ([], Some SliceBoundsOutOfRange)"
  by (simp add: cleanupOldLogs_cycle_def short_filter)

text \<open>
  C5. Compaction is idempotent: when a cycle with cutoff \<open>cutoff\<close> has produced the
  output \<open>out\<close>, a cycle with the same cutoff on a store holding \<open>out\<close> completes and
  produces \<open>out\<close> again, byte for byte, whatever the spare room of either buffer.
\<close>

theorem compaction_idempotent:
  assumes "cleanup_filter cutoff (content, spare) = Inr out"
  shows "cleanup_filter cutoff (out, spare') = Inr out"
proof -
  from assms have "out = spec_compaction cutoff content"
    by (rule cleanup_filter_Inr)
  then show ?thesis
    by (simp add: spec_compaction_again)
qed

theorem compaction_idempotent_witness:
  "cleanup_filter 1600000000000000000
     (''2023-01-01T00:00:00Z hello\<newline>\<newline>not-a-timestamp-but-20chars!!'', 455)
     = Inr (''2023-01-01T00:00:00Z hello\<newline>'')
   \<and> cleanup_filter 1600000000000000000 (''2023-01-01T00:00:00Z hello\<newline>'', 485)
     = Inr (''2023-01-01T00:00:00Z hello\<newline>'')"
proof -
  have first: "cleanup_filter 1600000000000000000
     (''2023-01-01T00:00:00Z hello\<newline>\<newline>not-a-timestamp-but-20chars!!'', 455)
     = Inr (''2023-01-01T00:00:00Z hello\<newline>'')"
    by (rule example_result) (unfold Date_2023, simp)
  from compaction_idempotent [OF first, of 485] first show ?thesis
    by blast
qed

text \<open>
  C10. The output of a cycle is an order-preserving subsequence of the input lines:
  read back line by line, the output consists of lines of the input, unmodified and in
  their input order, each followed by a single newline, and of nothing else.
\<close>

theorem compaction_subsequence:
  assumes "cleanup_filter cutoff (content, spare) = Inr out"
  shows "subseq (butlast (bytes_Split out)) (bytes_Split content)
         \<and> out = terminated (butlast (bytes_Split out))
         \<and> bytes_Split out = butlast (bytes_Split out) @ [[]]
         \<and> (\<forall>line \<in> set (butlast (bytes_Split out)). CHR ''\<newline>'' \<notin> set line)
         \<and> set (butlast (bytes_Split out)) \<subseteq> set (bytes_Split content)"
proof -
  let ?kept = "filter (spec_keeps cutoff) (bytes_Split content)"
  from assms have out: "out = spec_compaction cutoff content"
    by (rule cleanup_filter_Inr)
  have lines_out: "bytes_Split out = ?kept @ [[]]"
    unfolding out by (rule kept_lines_read_back)
  then have kept: "butlast (bytes_Split out) = ?kept"
    by simp
  have "subseq ?kept (bytes_Split content)"
    by (rule subseq_filter_left)
  moreover have "out = terminated ?kept"
    unfolding out by (simp add: spec_compaction_def)
  moreover have "\<forall>line \<in> set ?kept. CHR ''\<newline>'' \<notin> set line"
    using bytes_Split_no_newline by auto
  moreover have "set ?kept \<subseteq> set (bytes_Split content)"
    by auto
  ultimately show ?thesis
    unfolding kept using lines_out by simp
qed

theorem compaction_subsequence_witness:
  "cleanup_filter 1500000000000000000
     (''2023-01-01T00:00:00Z hello\<newline>\<newline>not-a-timestamp-but-20chars!!'', 3)
     = Inr (''2023-01-01T00:00:00Z hello\<newline>'')
   \<and> subseq (butlast (bytes_Split (''2023-01-01T00:00:00Z hello\<newline>'')))
        (bytes_Split (''2023-01-01T00:00:00Z hello\<newline>\<newline>not-a-timestamp-but-20chars!!''))
   \<and> bytes_Split (''2023-01-01T00:00:00Z hello\<newline>'')
      = butlast (bytes_Split (''2023-01-01T00:00:00Z hello\<newline>'')) @ [[]]"
proof -
  have run: "cleanup_filter 1500000000000000000
     (''2023-01-01T00:00:00Z hello\<newline>\<newline>not-a-timestamp-but-20chars!!'', 3)
     = Inr (''2023-01-01T00:00:00Z hello\<newline>'')"
    by (rule example_result) (unfold Date_2023, simp)
  from compaction_subsequence [OF run] run show ?thesis
    by blast
qed

section \<open>The claims about the edge monitor and the state registry\<close>

text \<open>
  C1, as amended. The loop compares each observed level with \<^verbatim>\<open>lastState\<close>, which is the
  level observed at the previous tick and, at the first tick, the zero value of the
  level type. At a tick whose level differs it sets \<^verbatim>\<open>state\<close> to
  \<open>currentState = Low\<close>, logs the line \<open>Switch state changed to: <state>\<close> once and
  posts that message once (a failed post adds the transport's diagnostic to the log);
  at a tick whose level is the same it does nothing. So the number of notifications is
  the number of changes between consecutive elements of the observed sequence with the
  zero value put in front.
\<close>

theorem monitor_emits_per_change:
  "notifications_sent (snd (monitorSwitch slackToken slackChannel ticks state0))
     = spec_level_changes (Level_zero # map fst ticks)
   \<and> monitorSwitch slackToken slackChannel (ticks @ [(currentState, sendErr)]) state0
     = (if currentState \<noteq> last (Level_zero # map fst ticks)
        then
          (\<lparr>lastState = currentState, state = (currentState = Low)\<rparr>,
           snd (monitorSwitch slackToken slackChannel ticks state0)
             @ [[Log 135 (''Switch state changed to: '' @ fmt_bool (currentState = Low)
                            @ ''\<newline>''),
                 PostMessage slackToken slackChannel
                   (''Switch state changed to: '' @ fmt_bool (currentState = Low))]
                @ (case sendErr of
                     None \<Rightarrow> []
                   | Some err \<Rightarrow> [Log 147 (''Failed to send Slack message: '' @ err)])])
        else
          (fst (monitorSwitch slackToken slackChannel ticks state0),
           snd (monitorSwitch slackToken slackChannel ticks state0) @ [[]]))"
proof
  show "notifications_sent (snd (monitorSwitch slackToken slackChannel ticks state0))
          = spec_level_changes (Level_zero # map fst ticks)"
    unfolding monitorSwitch_def loop_posts by simp
next
  let ?init = "\<lparr>lastState = Level_zero, state = state0\<rparr>"
  let ?before = "fst (monitor_loop slackToken slackChannel ticks ?init)"
  have prev: "lastState ?before = last (Level_zero # map fst ticks)"
    unfolding loop_lastState by simp
  show "monitorSwitch slackToken slackChannel (ticks @ [(currentState, sendErr)]) state0
     = (if currentState \<noteq> last (Level_zero # map fst ticks)
        then
          (\<lparr>lastState = currentState, state = (currentState = Low)\<rparr>,
           snd (monitorSwitch slackToken slackChannel ticks state0)
             @ [[Log 135 (''Switch state changed to: '' @ fmt_bool (currentState = Low)
                            @ ''\<newline>''),
                 PostMessage slackToken slackChannel
                   (''Switch state changed to: '' @ fmt_bool (currentState = Low))]
                @ (case sendErr of
                     None \<Rightarrow> []
                   | Some err \<Rightarrow> [Log 147 (''Failed to send Slack message: '' @ err)])])
        else
          (fst (monitorSwitch slackToken slackChannel ticks state0),
           snd (monitorSwitch slackToken slackChannel ticks state0) @ [[]]))"
  proof (cases "currentState = lastState ?before")
    case True
    then show ?thesis
      unfolding monitorSwitch_def loop_snoc prev [symmetric]
      by (simp add: iteration_unchanged)
  next
    case False
    then show ?thesis
      unfolding monitorSwitch_def loop_snoc prev [symmetric]
      by (simp add: iteration_changed sendSlackMessage_def)
  qed
qed

theorem monitor_emits_per_change_witness:
  "notifications_sent
     (snd (monitorSwitch ''xoxb-token'' ''C0123''
             [(Low, None), (High, None), (High, None), (Low, Some ''timeout'')] False)) = 2
   \<and> monitorSwitch ''xoxb-token'' ''C0123'' ([(Low, None)] @ [(High, None)]) False
     = (\<lparr>lastState = High, state = False\<rparr>,
        [[], [Log 135 ''Switch state changed to: false\<newline>'',
              PostMessage ''xoxb-token'' ''C0123'' ''Switch state changed to: false'']])"
proof -
  from monitor_emits_per_change [of "''xoxb-token''" "''C0123''"
      "[(Low, None), (High, None), (High, None), (Low, Some ''timeout'')]" False Low None]
  have "notifications_sent
     (snd (monitorSwitch ''xoxb-token'' ''C0123''
             [(Low, None), (High, None), (High, None), (Low, Some ''timeout'')] False)) = 2"
    by (simp add: Level_zero_def)
  moreover
  have "monitorSwitch ''xoxb-token'' ''C0123'' [(Low, None)] False
          = (\<lparr>lastState = Low, state = False\<rparr>, [[]])"
    by (simp add: monitorSwitch_def Level_zero_def iteration_unchanged)
  with monitor_emits_per_change [of "''xoxb-token''" "''C0123''" "[(Low, None)]" False High None]
  have "monitorSwitch ''xoxb-token'' ''C0123'' ([(Low, None)] @ [(High, None)]) False
     = (\<lparr>lastState = High, state = False\<rparr>,
        [[], [Log 135 ''Switch state changed to: false\<newline>'',
              PostMessage ''xoxb-token'' ''C0123'' ''Switch state changed to: false'']])"
    by (simp add: Level_zero_def fmt_bool_def)
  ultimately show ?thesis by blast
qed

text \<open>
  The claim as it was stated fails on the sequence whose only observation is \<open>High\<close>:
  no level change lies between consecutive polls, and one notification is sent.
\<close>

theorem monitor_first_tick_counterexample:
  "notifications_sent (snd (monitorSwitch ''xoxb-token'' ''C0123'' [(High, None)] False)) = 1
   \<and> spec_level_changes [High] = 0"
  by (simp add: monitorSwitch_def notifications_sent_def monitor_iteration_def Level_zero_def
        sendSlackMessage_def Let_def)

text \<open>
  C2, as amended. \<^verbatim>\<open>lastState\<close> starts at the zero value of the level type, which is the
  real level \<open>Low\<close> and no sentinel. The first pass of the loop emits nothing exactly
  when the first observed level is that value; when it is the other level, the loop
  logs and posts \<open>Switch state changed to: false\<close>.
\<close>

theorem first_poll_emission:
  "hd (snd (monitorSwitch slackToken slackChannel ((currentState, sendErr) # ticks) state0))
     = (if currentState = Level_zero then []
        else
          [Log 135 ''Switch state changed to: false\<newline>'',
           PostMessage slackToken slackChannel ''Switch state changed to: false'']
          @ (case sendErr of
               None \<Rightarrow> []
             | Some err \<Rightarrow> [Log 147 (''Failed to send Slack message: '' @ err)]))
   \<and> Level_zero = Low"
proof (cases currentState)
  case Low
  then show ?thesis
    unfolding monitorSwitch_def loop_Cons
    by (simp add: iteration_unchanged Level_zero_def)
next
  case High
  then show ?thesis
    unfolding monitorSwitch_def loop_Cons
    by (simp add: iteration_changed Level_zero_def sendSlackMessage_def fmt_bool_def)
qed

theorem first_poll_emission_witness:
  "hd (snd (monitorSwitch ''xoxb-token'' ''C0123'' ((Low, None) # [(High, None)]) False)) = []
   \<and> Level_zero = Low"
  using first_poll_emission [of "''xoxb-token''" "''C0123''" Low None "[(High, None)]" False]
  by simp

text \<open>
  The claim as it was stated fails when the first observed level is \<open>High\<close>: the first
  pass reports a transition. Had the variable started at \<open>High\<close> instead, a first
  observation of \<open>Low\<close> would be reported in the same way.
\<close>

theorem first_poll_counterexample:
  "hd (snd (monitorSwitch ''xoxb-token'' ''C0123'' [(High, None)] False))
     = [Log 135 ''Switch state changed to: false\<newline>'',
        PostMessage ''xoxb-token'' ''C0123'' ''Switch state changed to: false'']
   \<and> snd (monitor_iteration ''xoxb-token'' ''C0123'' Low None \<lparr>lastState = High, state = False\<rparr>)
     = [Log 135 ''Switch state changed to: true\<newline>'',
        PostMessage ''xoxb-token'' ''C0123'' ''Switch state changed to: true'']"
  by (simp add: monitorSwitch_def monitor_iteration_def Level_zero_def sendSlackMessage_def
        fmt_bool_def Let_def)

text \<open>
  C6. Reading after a write returns what was written: for every boolean \<open>b\<close>, once
  \<^verbatim>\<open>state\<close> holds \<open>b\<close>, \<^verbatim>\<open>getStatus\<close> answers 200 with the JSON object whose only member
  \<open>state\<close> is \<open>b\<close>. The loop is the only writer: when it observes, at some tick, a
  level that differs from the one before, it sets \<^verbatim>\<open>state\<close> to \<open>currentState = Low\<close>, and
  through any number of following ticks with the same level \<^verbatim>\<open>getStatus\<close> answers with
  that value; after a transition to \<open>Low\<close> that is \<open>true\<close>.
\<close>

theorem status_after_write:
  "getStatus (state (v\<lparr>state := b\<rparr>))
     = \<lparr>status = 200, contentType = ''application/json'', body = JSON_bools [(''state'', b)]\<rparr>
   \<and> (currentState \<noteq> last (Level_zero # map fst ticks)
      \<longrightarrow> getStatus (state (fst (monitorSwitch slackToken slackChannel
                                     (ticks @ (currentState, sendErr) # map (Pair currentState) answers)
                                     state0)))
          = \<lparr>status = 200, contentType = ''application/json'',
             body = JSON_bools [(''state'', currentState = Low)]\<rparr>)"
proof (intro conjI impI)
  show "getStatus (state (v\<lparr>state := b\<rparr>))
     = \<lparr>status = 200, contentType = ''application/json'', body = JSON_bools [(''state'', b)]\<rparr>"
    by (simp add: getStatus_def)
next
  assume "currentState \<noteq> last (Level_zero # map fst ticks)"
  then have "state (fst (monitorSwitch slackToken slackChannel
                           (ticks @ (currentState, sendErr) # map (Pair currentState) answers)
                           state0))
               = (currentState = Low)"
    by (rule state_after_change)
  then show "getStatus (state (fst (monitorSwitch slackToken slackChannel
                                     (ticks @ (currentState, sendErr) # map (Pair currentState) answers)
                                     state0)))
          = \<lparr>status = 200, contentType = ''application/json'',
             body = JSON_bools [(''state'', currentState = Low)]\<rparr>"
    by (simp add: getStatus_def)
qed

theorem status_after_write_witness:
  "Low \<noteq> last (Level_zero # map fst [(High, None)])
   \<and> getStatus (state (fst (monitorSwitch ''xoxb-token'' ''C0123''
                              ([(High, None)] @ (Low, Some ''timeout'') # map (Pair Low) [None, None])
                              False)))
     = \<lparr>status = 200, contentType = ''application/json'',
        body = JSON_bools [(''state'', True)]\<rparr>"
proof -
  have differs: "Low \<noteq> last (Level_zero # map fst [(High, None :: string option)])"
    by simp
  from status_after_write [of _ _ Low "[(High, None)]" "''xoxb-token''" "''C0123''"
      "Some ''timeout''" "[None, None]" False] differs
  have "getStatus (state (fst (monitorSwitch ''xoxb-token'' ''C0123''
                              ([(High, None)] @ (Low, Some ''timeout'') # map (Pair Low) [None, None])
                              False)))
     = \<lparr>status = 200, contentType = ''application/json'',
        body = JSON_bools [(''state'', Low = Low)]\<rparr>"
    by blast
  with differs show ?thesis by simp
qed

section \<open>The claims about the opt-in registry and its handler\<close>

text \<open>
  C7. Opt-in is idempotent: for every identifier and every registry, opting in twice
  leaves the registry that opting in once leaves, with exactly one entry for the
  identifier; two identical requests to the handler leave the registry that one leaves.
\<close>

theorem optIn_idempotent:
  "optIn userID (optIn userID optInUsers) = optIn userID optInUsers
   \<and> card {k \<in> dom (optIn userID (optIn userID optInUsers)). k = userID} = 1
   \<and> optIn userID (optIn userID optInUsers) userID = Some True
   \<and> snd (handleOptIn r (snd (handleOptIn r optInUsers))) = snd (handleOptIn r optInUsers)"
proof -
  have "{k \<in> dom (optIn userID optInUsers). k = userID} = {userID}"
    by (auto simp: optIn_def)
  then have "card {k \<in> dom (optIn userID optInUsers). k = userID} = 1"
    by simp
  moreover have "optIn userID optInUsers userID = Some True"
    by (simp add: optIn_def)
  ultimately show ?thesis
    unfolding optIn_twice using handleOptIn_twice [of r optInUsers] by simp
qed

theorem optIn_idempotent_witness:
  "optIn ''U123'' (optIn ''U123'' optInUsers_init) = optIn ''U123'' optInUsers_init
   \<and> card {k \<in> dom (optIn ''U123'' (optIn ''U123'' optInUsers_init)). k = ''U123''} = 1"
  using optIn_idempotent [of "''U123''" optInUsers_init]
  by blast

text \<open>
  C8, as amended. The handler first parses the form: when that fails it answers 400 and
  leaves the registry as it is. When the form parses and the token differs from the
  shared secret or \<open>user_id\<close> is empty, it answers 401 and leaves the registry as it
  is. Otherwise it adds \<open>user_id\<close> to the registry and answers 200 with the JSON object
  of the members \<open>response_type = ephemeral\<close> and
  \<open>text = You have opted in for notifications, <@user_id>.\<close>
\<close>

theorem handleOptIn_outcomes:
  "(ParseForm r \<noteq> None
      \<longrightarrow> fst (handleOptIn r optInUsers) = http_Error ''Invalid request format'' 400
          \<and> status (fst (handleOptIn r optInUsers)) = 400
          \<and> snd (handleOptIn r optInUsers) = optInUsers)
   \<and> (ParseForm r = None
        \<and> (FormValue r ''token'' \<noteq> slackVerificationToken \<or> FormValue r ''user_id'' = [])
      \<longrightarrow> fst (handleOptIn r optInUsers) = http_Error ''Invalid user or token'' 401
          \<and> status (fst (handleOptIn r optInUsers)) = 401
          \<and> snd (handleOptIn r optInUsers) = optInUsers)
   \<and> (ParseForm r = None
        \<and> FormValue r ''token'' = slackVerificationToken \<and> FormValue r ''user_id'' \<noteq> []
      \<longrightarrow> fst (handleOptIn r optInUsers)
            = \<lparr>status = 200, contentType = ''application/json'',
               body = JSON_strings
                 [(''response_type'', ''ephemeral''),
                  (''text'', ''You have opted in for notifications, <@''
                               @ FormValue r ''user_id'' @ ''>.'')]\<rparr>
          \<and> snd (handleOptIn r optInUsers) = optInUsers(FormValue r ''user_id'' \<mapsto> True)
          \<and> dom (snd (handleOptIn r optInUsers)) = insert (FormValue r ''user_id'') (dom optInUsers))"
proof (intro conjI impI)
  assume "ParseForm r \<noteq> None"
  then obtain err where err: "ParseForm r = Some err"
    by auto
  show "fst (handleOptIn r optInUsers) = http_Error ''Invalid request format'' 400"
    and "status (fst (handleOptIn r optInUsers)) = 400"
    and "snd (handleOptIn r optInUsers) = optInUsers"
    unfolding handleOptIn_malformed [OF err] by (simp_all add: http_Error_def)
next
  assume "ParseForm r = None
            \<and> (FormValue r ''token'' \<noteq> slackVerificationToken \<or> FormValue r ''user_id'' = [])"
  then have parsed: "ParseForm r = None"
    and bad: "FormValue r ''user_id'' = [] \<or> FormValue r ''token'' \<noteq> slackVerificationToken"
    by blast+
  show "fst (handleOptIn r optInUsers) = http_Error ''Invalid user or token'' 401"
    and "status (fst (handleOptIn r optInUsers)) = 401"
    and "snd (handleOptIn r optInUsers) = optInUsers"
    unfolding handleOptIn_rejected [OF parsed bad] by (simp_all add: http_Error_def)
next
  assume "ParseForm r = None
            \<and> FormValue r ''token'' = slackVerificationToken \<and> FormValue r ''user_id'' \<noteq> []"
  then have parsed: "ParseForm r = None"
    and user: "FormValue r ''user_id'' \<noteq> []"
    and token: "FormValue r ''token'' = slackVerificationToken"
    by blast+
  show "fst (handleOptIn r optInUsers)
            = \<lparr>status = 200, contentType = ''application/json'',
               body = JSON_strings
                 [(''response_type'', ''ephemeral''),
                  (''text'', ''You have opted in for notifications, <@''
                               @ FormValue r ''user_id'' @ ''>.'')]\<rparr>"
    and "snd (handleOptIn r optInUsers) = optInUsers(FormValue r ''user_id'' \<mapsto> True)"
    and "dom (snd (handleOptIn r optInUsers)) = insert (FormValue r ''user_id'') (dom optInUsers)"
    unfolding handleOptIn_accepted [OF parsed user token] by (simp_all add: optIn_def)
qed

theorem handleOptIn_outcomes_witness:
  "ParseForm \<lparr>ParseForm = None,
                Form = [(''user_id'', [''U123'']), (''token'', [''your-slack-verification-token''])]\<rparr>
     = None
   \<and> FormValue \<lparr>ParseForm = None,
                  Form = [(''user_id'', [''U123'']), (''token'', [''your-slack-verification-token''])]\<rparr>
        ''token'' = slackVerificationToken
   \<and> FormValue \<lparr>ParseForm = None,
                  Form = [(''user_id'', [''U123'']), (''token'', [''your-slack-verification-token''])]\<rparr>
        ''user_id'' \<noteq> []
   \<and> fst (handleOptIn
            \<lparr>ParseForm = None,
              Form = [(''user_id'', [''U123'']), (''token'', [''your-slack-verification-token''])]\<rparr>
            optInUsers_init)
      = \<lparr>status = 200, contentType = ''application/json'',
         body = JSON_strings
           [(''response_type'', ''ephemeral''),
            (''text'', ''You have opted in for notifications, <@U123>.'')]\<rparr>
   \<and> snd (handleOptIn
            \<lparr>ParseForm = None,
              Form = [(''user_id'', [''U123'']), (''token'', [''your-slack-verification-token''])]\<rparr>
            optInUsers_init)
      = optInUsers_init(''U123'' \<mapsto> True)"
proof -
  let ?r = "\<lparr>ParseForm = None,
              Form = [(''user_id'', [''U123'']), (''token'', [''your-slack-verification-token''])]\<rparr>"
  have parsed: "ParseForm ?r = None"
    by simp
  have token: "FormValue ?r ''token'' = slackVerificationToken"
    by (simp add: FormValue_def slackVerificationToken_def)
  have user: "FormValue ?r ''user_id'' = ''U123''"
    by (simp add: FormValue_def)
  from handleOptIn_outcomes [of ?r optInUsers_init] parsed token user
  have "fst (handleOptIn ?r optInUsers_init)
          = \<lparr>status = 200, contentType = ''application/json'',
             body = JSON_strings
               [(''response_type'', ''ephemeral''),
                (''text'', ''You have opted in for notifications, <@U123>.'')]\<rparr>"
    and "snd (handleOptIn ?r optInUsers_init) = optInUsers_init(''U123'' \<mapsto> True)"
    by simp_all
  with parsed token user show ?thesis
    by simp
qed

text \<open>
  The claim as it was stated fails on a request whose form does not parse although it
  carries the right token and a user: the answer is 400, not 200, and the user is not
  added.
\<close>

theorem handleOptIn_malformed_counterexample:
  "FormValue \<lparr>ParseForm = Some ''invalid URL escape'',
                Form = [(''user_id'', [''U123'']), (''token'', [''your-slack-verification-token''])]\<rparr>
      ''token'' = slackVerificationToken
   \<and> FormValue \<lparr>ParseForm = Some ''invalid URL escape'',
                  Form = [(''user_id'', [''U123'']), (''token'', [''your-slack-verification-token''])]\<rparr>
        ''user_id'' = ''U123''
   \<and> status (fst (handleOptIn
        \<lparr>ParseForm = Some ''invalid URL escape'',
          Form = [(''user_id'', [''U123'']), (''token'', [''your-slack-verification-token''])]\<rparr>
        optInUsers_init)) = 400
   \<and> snd (handleOptIn
        \<lparr>ParseForm = Some ''invalid URL escape'',
          Form = [(''user_id'', [''U123'']), (''token'', [''your-slack-verification-token''])]\<rparr>
        optInUsers_init) ''U123'' = None"
  by (simp add: handleOptIn_def FormValue_def slackVerificationToken_def http_Error_def
        optInUsers_init_def)

section \<open>The claim about the layout of the log file\<close>

text \<open>
  C9. The claim asks that every line the logging sink appends begins with a 20-character
  RFC3339 timestamp. The sink does not write such lines. When \<^verbatim>\<open>setupGPIOPin\<close> does not
  find its pin at 2023-01-01 00:00:00, the entry it logs at line 69 is
  \<open>2023/01/01 00:00:00 main.go:69: Failed to find pin GPIO17\<close>; the monitor's message
  of line 135 is logged as
  \<open>2023/01/01 00:00:00 main.go:135: Switch state changed to: true\<close>. Whatever the
  time, the place of the call and the text, the leading 20 bytes of a logged entry do
  not parse as RFC3339, so a compaction cycle drops the entry whatever the cutoff.
\<close>

theorem logged_line_is_not_rfc3339:
  "log_Output 2023 1 1 0 0 0 69 ''Failed to find pin GPIO17''
     = ''2023/01/01 00:00:00 main.go:69: Failed to find pin GPIO17\<newline>''
   \<and> log_Output 2023 1 1 0 0 0 135 ''Switch state changed to: true\<newline>''
     = ''2023/01/01 00:00:00 main.go:135: Switch state changed to: true\<newline>''
   \<and> time_Parse_RFC3339 (take 20 (log_Output year month day hour minute sec line s)) = None
   \<and> cleanup_filter cutoff
        (''2023/01/01 00:00:00 main.go:69: Failed to find pin GPIO17\<newline>'', spare)
      = Inr []"
  using logged_example logged_transition
    logged_never_parses [of year month day hour minute sec line s]
    logged_example_dropped [of cutoff spare]
  by blast

end
